theory Spec2Isabelle
  imports Complex_Main "HOL-Library.Sublist" "HOL-Library.Multiset" "HOL-Library.Log_Nat"
begin

section \<open>NC Lottery strategy monitor: the analysis and scoring engine\<close>

text \<open>
  A shallow embedding of the scoring engine of \<^verbatim>\<open>nc_lottery_million_monitor.py\<close>:
  the classes \<^verbatim>\<open>PrizeTier\<close> and \<^verbatim>\<open>GameData\<close>, the functions
  \<^verbatim>\<open>calculate_composite_score\<close> and \<^verbatim>\<open>categorize_game\<close>, and the ranking step at the
  head of \<^verbatim>\<open>generate_html_report\<close>.

  Numbers. Python's \<^verbatim>\<open>int\<close> is \<^typ>\<open>int\<close>. In the scoring engine Python's \<^verbatim>\<open>float\<close> is
  modelled by \<^typ>\<open>real\<close>: the arithmetic is exact, so the rounding and the range of IEEE
  doubles, infinities and NaN are outside that model. Where a statement is about exactly
  these (whether \<^verbatim>\<open>percent_remaining\<close> can raise, and whether its result exceeds 100), a
  second model of \<^verbatim>\<open>percent_remaining\<close> carries them: the quotient of two integers is
  correctly rounded to a double and raises \<^verbatim>\<open>OverflowError\<close> beyond the double range, and
  the product of two doubles is rounded again and may be infinite.

  Exceptions. The operations of the engine that can raise are true division
  (\<^verbatim>\<open>ZeroDivisionError\<close>, and \<^verbatim>\<open>OverflowError\<close> in double arithmetic) and \<^verbatim>\<open>max\<close>/\<^verbatim>\<open>min\<close> of
  an empty sequence (\<^verbatim>\<open>ValueError\<close>). Every function that reaches one of them returns
  \<open>py_error + 'a\<close>, with \<open>Inl\<close> the exception raised, so that "does not raise" is a
  statement that can be proved.
\<close>

subsection \<open>Exceptions and the Python built-ins used by the engine\<close>

datatype py_error = ZeroDivisionError | ValueError | OverflowError

definition bind_err :: "py_error + 'a \<Rightarrow> ('a \<Rightarrow> py_error + 'b) \<Rightarrow> py_error + 'b" where
  "bind_err m f = (case m of Inl e \<Rightarrow> Inl e | Inr x \<Rightarrow> f x)"

text \<open>
  \<^verbatim>\<open>a / b\<close> on two Python integers, in exact arithmetic: true division, raising when
  \<^verbatim>\<open>b == 0\<close>. The quotient is the real number, not its nearest double; the double
  quotient, with its \<^verbatim>\<open>OverflowError\<close>, is \<open>truediv_double\<close> below.
\<close>

definition truediv :: "int \<Rightarrow> int \<Rightarrow> py_error + real" where
  "truediv a b = (if b = 0 then Inl ZeroDivisionError else Inr (real_of_int a / real_of_int b))"

text \<open>
  \<^verbatim>\<open>max(xs, key=f)\<close> and \<^verbatim>\<open>min(xs, key=f)\<close>: the first item is the candidate, and a later
  item replaces it only when its key is strictly greater (strictly smaller for \<^verbatim>\<open>min\<close>);
  an empty sequence raises \<^verbatim>\<open>ValueError\<close>.
\<close>

fun max_loop :: "('a \<Rightarrow> real) \<Rightarrow> 'a \<Rightarrow> 'a list \<Rightarrow> 'a" where
  "max_loop key m [] = m"
| "max_loop key m (x # xs) = max_loop key (if key x > key m then x else m) xs"

fun min_loop :: "('a \<Rightarrow> real) \<Rightarrow> 'a \<Rightarrow> 'a list \<Rightarrow> 'a" where
  "min_loop key m [] = m"
| "min_loop key m (x # xs) = min_loop key (if key x < key m then x else m) xs"

definition py_max :: "('a \<Rightarrow> real) \<Rightarrow> 'a list \<Rightarrow> py_error + 'a" where
  "py_max key xs = (case xs of [] \<Rightarrow> Inl ValueError | x # rest \<Rightarrow> Inr (max_loop key x rest))"

definition py_min :: "('a \<Rightarrow> real) \<Rightarrow> 'a list \<Rightarrow> py_error + 'a" where
  "py_min key xs = (case xs of [] \<Rightarrow> Inl ValueError | x # rest \<Rightarrow> Inr (min_loop key x rest))"

text \<open>
  \<^verbatim>\<open>xs.sort(key=f, reverse=True)\<close>: CPython reverses the list, sorts it stably in ascending
  key order and reverses it again. The stable ascending sort is \<^const>\<open>sort_key\<close>.
\<close>

definition py_sort :: "('a \<Rightarrow> real) \<Rightarrow> bool \<Rightarrow> 'a list \<Rightarrow> 'a list" where
  "py_sort key reverse xs = (if reverse then rev (sort_key key (rev xs)) else sort_key key xs)"

subsection \<open>PrizeTier\<close>

record PrizeTier =
  "value" :: real
  total :: int
  remaining :: int

definition percent_remaining :: "PrizeTier \<Rightarrow> py_error + real" where
  "percent_remaining t =
     (if total t = 0 then Inr 0
      else bind_err (truediv (remaining t) (total t)) (\<lambda>q. Inr (q * 100)))"

definition is_million_plus :: "PrizeTier \<Rightarrow> bool" where
  "is_million_plus t = (value t \<ge> 1000000)"

definition is_break_even_tier :: "PrizeTier \<Rightarrow> real \<Rightarrow> bool" where
  "is_break_even_tier t ticket_price =
     (let floor = ticket_price * 2;
          ceiling = ticket_price * 10
      in floor \<le> value t \<and> value t \<le> ceiling)"

definition is_small_win_tier :: "PrizeTier \<Rightarrow> bool" where
  "is_small_win_tier t = (500 \<le> value t \<and> value t \<le> 1000)"

definition is_medium_win_tier :: "PrizeTier \<Rightarrow> bool" where
  "is_medium_win_tier t = (2000 \<le> value t \<and> value t \<le> 10000)"

subsection \<open>GameData\<close>

record GameData =
  game_number :: string
  game_name :: string
  ticket_price :: real
  url :: string
  start_date :: "string option"
  status :: string
  prize_tiers :: "PrizeTier list"

definition get_top_prize :: "GameData \<Rightarrow> py_error + PrizeTier option" where
  "get_top_prize g =
     (if prize_tiers g = [] then Inr None
      else bind_err (py_max value (prize_tiers g)) (\<lambda>t. Inr (Some t)))"

definition get_bottom_prize :: "GameData \<Rightarrow> py_error + PrizeTier option" where
  "get_bottom_prize g =
     (if prize_tiers g = [] then Inr None
      else bind_err (py_min value (prize_tiers g)) (\<lambda>t. Inr (Some t)))"

definition get_million_plus_tiers :: "GameData \<Rightarrow> PrizeTier list" where
  "get_million_plus_tiers g = filter is_million_plus (prize_tiers g)"

definition get_break_even_tiers :: "GameData \<Rightarrow> PrizeTier list" where
  "get_break_even_tiers g = filter (\<lambda>t. is_break_even_tier t (ticket_price g)) (prize_tiers g)"

definition get_small_win_tiers :: "GameData \<Rightarrow> PrizeTier list" where
  "get_small_win_tiers g = filter is_small_win_tier (prize_tiers g)"

definition get_medium_win_tiers :: "GameData \<Rightarrow> PrizeTier list" where
  "get_medium_win_tiers g = filter is_medium_win_tier (prize_tiers g)"

text \<open>
  \<^verbatim>\<open>if not top or not bottom\<close>: a \<^verbatim>\<open>PrizeTier\<close> instance is always truthy, so the test
  is true exactly when one of the two is \<^verbatim>\<open>None\<close>.
\<close>

definition calculate_differential :: "GameData \<Rightarrow> py_error + real" where
  "calculate_differential g =
     bind_err (get_top_prize g) (\<lambda>top.
     bind_err (get_bottom_prize g) (\<lambda>bottom.
       case (top, bottom) of
         (Some t, Some b) \<Rightarrow>
           bind_err (percent_remaining t) (\<lambda>pt.
           bind_err (percent_remaining b) (\<lambda>pb. Inr (pt - pb)))
       | _ \<Rightarrow> Inr 0))"

definition calculate_million_health :: "GameData \<Rightarrow> py_error + (int \<times> int \<times> real)" where
  "calculate_million_health g =
     (let million_tiers = get_million_plus_tiers g
      in if million_tiers = [] then Inr (0, 0, 0)
         else
           let total' = sum_list (map total million_tiers);
               remaining' = sum_list (map remaining million_tiers)
           in bind_err (if total' > 0
                        then bind_err (truediv remaining' total') (\<lambda>q. Inr (q * 100))
                        else Inr 0)
                (\<lambda>pct. Inr (remaining', total', pct)))"

definition calculate_loss_minimization_score :: "GameData \<Rightarrow> py_error + real" where
  "calculate_loss_minimization_score g =
     (let break_even = get_break_even_tiers g
      in bind_err
           (if break_even \<noteq> [] then
              let be_total = sum_list (map total break_even);
                  be_remaining = sum_list (map remaining break_even)
              in if be_total > 0
                 then bind_err (truediv be_remaining be_total) (\<lambda>q. Inr (q * 100))
                 else Inr 0
            else Inr 0)
       (\<lambda>be_pct.
      let small_wins = get_small_win_tiers g
      in bind_err
           (if small_wins \<noteq> [] then
              let sw_total = sum_list (map total small_wins);
                  sw_remaining = sum_list (map remaining small_wins)
              in if sw_total > 0
                 then bind_err (truediv sw_remaining sw_total) (\<lambda>q. Inr (q * 100))
                 else Inr 0
            else Inr 0)
       (\<lambda>sw_pct.
      let medium_wins = get_medium_win_tiers g
      in bind_err
           (if medium_wins \<noteq> [] then
              let mw_total = sum_list (map total medium_wins);
                  mw_remaining = sum_list (map remaining medium_wins)
              in if mw_total > 0
                 then bind_err (truediv mw_remaining mw_total) (\<lambda>q. Inr (q * 100))
                 else Inr 0
            else Inr 0)
       (\<lambda>mw_pct.
      let score = (be_pct * 0.50) + (sw_pct * 0.30) + (mw_pct * 0.20)
      in Inr score))))"

definition calculate_bottom_depletion :: "GameData \<Rightarrow> py_error + real" where
  "calculate_bottom_depletion g =
     bind_err (get_bottom_prize g) (\<lambda>bottom.
       case bottom of
         None \<Rightarrow> Inr 0
       | Some b \<Rightarrow> percent_remaining b)"

text \<open>
  \<^verbatim>\<open>days_since_launch\<close> calls \<^verbatim>\<open>datetime.strptime\<close> and \<^verbatim>\<open>datetime.now\<close>. Both are outside
  the engine, so the model takes them as one parameter: \<open>elapsed s fmt\<close> is
  \<^verbatim>\<open>(datetime.now() - datetime.strptime(s, fmt)).days\<close>, and \<open>None\<close> when \<^verbatim>\<open>strptime\<close>
  raises \<^verbatim>\<open>ValueError\<close>. The loop over the three formats, the test \<^verbatim>\<open>not self.start_date\<close>
  (true for \<^verbatim>\<open>None\<close> and for the empty string) and the fall-through to \<^verbatim>\<open>None\<close> are those
  of the source.
\<close>

fun try_formats :: "(string \<Rightarrow> string \<Rightarrow> int option) \<Rightarrow> string \<Rightarrow> string list \<Rightarrow> int option" where
  "try_formats elapsed s [] = None"
| "try_formats elapsed s (fmt # fmts) =
     (case elapsed s fmt of
        Some days \<Rightarrow> Some days
      | None \<Rightarrow> try_formats elapsed s fmts)"

definition days_since_launch :: "(string \<Rightarrow> string \<Rightarrow> int option) \<Rightarrow> GameData \<Rightarrow> int option" where
  "days_since_launch elapsed g =
     (case start_date g of
        None \<Rightarrow> None
      | Some s \<Rightarrow>
          if s = [] then None
          else try_formats elapsed s [''%b %d, %Y'', ''%m/%d/%Y'', ''%Y-%m-%d''])"

subsection \<open>Scorer\<close>

definition calculate_composite_score ::
    "(string \<Rightarrow> string \<Rightarrow> int option) \<Rightarrow> GameData \<Rightarrow> py_error + real" where
  "calculate_composite_score elapsed g =
     bind_err (calculate_million_health g) (\<lambda>(_, _, million_pct).
     bind_err (calculate_loss_minimization_score g) (\<lambda>loss_min_score.
     bind_err (calculate_differential g) (\<lambda>diff.
       let diff_normalized = max 0 (min 100 ((diff + 30) * (100 / 60)));
           freshness =
             (case days_since_launch elapsed g of
                Some days \<Rightarrow>
                  if days < 30 then 100
                  else if days < 90 then 75
                  else if days < 180 then 50
                  else 25
              | None \<Rightarrow> 50);
           score = million_pct * 0.40 + loss_min_score * 0.30
                   + diff_normalized * 0.20 + freshness * 0.10
       in Inr score)))"

definition categorize_game :: "GameData \<Rightarrow> py_error + string" where
  "categorize_game g =
     bind_err (calculate_million_health g) (\<lambda>(_, _, million_pct).
     bind_err (calculate_bottom_depletion g) (\<lambda>bottom_pct.
     bind_err (calculate_differential g) (\<lambda>diff.
       if million_pct \<ge> 70 \<and> diff > 0 then Inr ''HOT''
       else if million_pct > bottom_pct + 10 then Inr ''HOT''
       else if million_pct < 30 then Inr ''AVOID''
       else if million_pct < bottom_pct - 15 then Inr ''AVOID''
       else Inr ''WATCH'')))"

subsection \<open>Ranking\<close>

text \<open>
  The first statements of \<^verbatim>\<open>generate_html_report\<close>: score and categorize every game
  (the list comprehension, which stops at the first exception), sort by the score with
  \<^verbatim>\<open>reverse=True\<close>, and split by category.
\<close>

fun score_games ::
    "(string \<Rightarrow> string \<Rightarrow> int option) \<Rightarrow> GameData list
       \<Rightarrow> py_error + (GameData \<times> real \<times> string) list" where
  "score_games elapsed [] = Inr []"
| "score_games elapsed (g # gs) =
     bind_err (calculate_composite_score elapsed g) (\<lambda>s.
     bind_err (categorize_game g) (\<lambda>c.
     bind_err (score_games elapsed gs) (\<lambda>rest. Inr ((g, s, c) # rest))))"

definition with_category ::
    "string \<Rightarrow> (GameData \<times> real \<times> string) list \<Rightarrow> (GameData \<times> real) list" where
  "with_category cat scored_games =
     map (\<lambda>(g, s, c). (g, s)) (filter (\<lambda>(g, s, c). c = cat) scored_games)"

text \<open>The four local variables that the ranking step leaves behind.\<close>

record Ranking =
  scored_games :: "(GameData \<times> real \<times> string) list"
  hot_games :: "(GameData \<times> real) list"
  watch_games :: "(GameData \<times> real) list"
  avoid_games :: "(GameData \<times> real) list"

definition rank_games ::
    "(string \<Rightarrow> string \<Rightarrow> int option) \<Rightarrow> GameData list \<Rightarrow> py_error + Ranking" where
  "rank_games elapsed games =
     bind_err (score_games elapsed games) (\<lambda>unsorted.
       let sorted_games = py_sort (\<lambda>x. fst (snd x)) True unsorted
       in Inr \<lparr> scored_games = sorted_games,
                hot_games = with_category ''HOT'' sorted_games,
                watch_games = with_category ''WATCH'' sorted_games,
                avoid_games = with_category ''AVOID'' sorted_games \<rparr>)"

subsection \<open>The specification's formulations and example data\<close>

text \<open>
  Definitions that follow the words of the specification, to be compared with the code:
  the clamp to an interval, the freshness step function and the percent of a tier group.
  \<open>group_pct\<close> is the percent that each of the three blocks of
  \<^verbatim>\<open>calculate_loss_minimization_score\<close> computes, with the guard \<^verbatim>\<open>total > 0\<close> of the code.
  \<open>mk_tier\<close> and \<open>mk_game\<close> build the concrete tiers and games of the examples; the
  two clocks \<open>iso_only_45_days\<close> and \<open>no_format_parses\<close> stand for a launch date in ISO
  format 45 days ago and for a date string that matches none of the formats.
\<close>

definition spec_clamp :: "real \<Rightarrow> real \<Rightarrow> real \<Rightarrow> real" where
  "spec_clamp lo hi x = (if x < lo then lo else if hi < x then hi else x)"

definition spec_freshness :: "int option \<Rightarrow> real" where
  "spec_freshness days =
     (case days of
        None \<Rightarrow> 50
      | Some d \<Rightarrow> if d < 30 then 100 else if d < 90 then 75 else if d < 180 then 50 else 25)"

definition spec_group_percent :: "PrizeTier list \<Rightarrow> real" where
  "spec_group_percent ts =
     (if ts = [] \<or> sum_list (map total ts) = 0 then 0
      else real_of_int (sum_list (map remaining ts)) / real_of_int (sum_list (map total ts)) * 100)"

definition mk_tier :: "real \<Rightarrow> int \<Rightarrow> int \<Rightarrow> PrizeTier" where
  "mk_tier v t r = \<lparr> value = v, total = t, remaining = r \<rparr>"

definition mk_game :: "string \<Rightarrow> real \<Rightarrow> string option \<Rightarrow> PrizeTier list \<Rightarrow> GameData" where
  "mk_game name price date tiers =
     \<lparr> game_number = ''000'', game_name = name, ticket_price = price, url = [],
       start_date = date, status = [], prize_tiers = tiers \<rparr>"

definition game_precedence_example :: GameData where
  "game_precedence_example =
     mk_game ''Precedence'' 5 (Some ''2026-01-01'')
       [mk_tier 1 100 50, mk_tier 1000000 120 120, mk_tier 2000000 100 45]"

definition game_loss_example :: GameData where
  "game_loss_example =
     mk_game ''Loss'' 5 None
       [mk_tier 10 60 50, mk_tier 50 40 30, mk_tier 500 100 40, mk_tier 5000 50 10,
        mk_tier 1000000 3 1]"

definition game_order_example :: GameData where
  "game_order_example =
     mk_game ''Order'' 5 None
       [mk_tier 5 1 1, mk_tier 10 2 2, mk_tier 1 3 3, mk_tier 10 4 4, mk_tier 1 5 5]"

definition game_empty_A :: GameData where
  "game_empty_A = mk_game ''A'' 5 None []"

definition game_million_B :: GameData where
  "game_million_B = mk_game ''B'' 5 None [mk_tier 1000000 1 1]"

definition game_empty_C :: GameData where
  "game_empty_C = mk_game ''C'' 5 None []"

definition iso_only_45_days :: "string \<Rightarrow> string \<Rightarrow> int option" where
  "iso_only_45_days s fmt = (if fmt = ''%Y-%m-%d'' then Some 45 else None)"

definition no_format_parses :: "string \<Rightarrow> string \<Rightarrow> int option" where
  "no_format_parses s fmt = None"

definition group_pct :: "PrizeTier list \<Rightarrow> real" where
  "group_pct ts =
     (if ts \<noteq> [] \<and> 0 < sum_list (map total ts)
      then real_of_int (sum_list (map remaining ts)) / real_of_int (sum_list (map total ts)) * 100
      else 0)"

subsection \<open>\<^verbatim>\<open>percent_remaining\<close> in double arithmetic\<close>

text \<open>
  A Python \<^verbatim>\<open>float\<close> is an IEEE double: a finite value (a real number on the grid of the
  doubles; the sign of zero is not represented) or an infinity. NaN does not arise in
  \<^verbatim>\<open>percent_remaining\<close>, whose operands are finite.

  \<open>round_double\<close> rounds a real number to the nearest number with a 53-bit significand,
  ties to the even significand, with the smallest exponent \<open>-1022\<close> (so that the spacing
  below \<open>2 powi (-1022)\<close> is that of the subnormal doubles) and no largest exponent: the
  caller compares the result with \<open>2 ^ 1024\<close>, as IEEE arithmetic does to detect an
  overflow. \<open>ilog2 x\<close> is the exponent \<open>e\<close> with \<open>2 powi e \<le> x < 2 powi (e + 1)\<close>, for a
  positive \<open>x\<close>.
\<close>

datatype py_float = Finite real | PosInf | NegInf

definition ilog2 :: "real \<Rightarrow> int" where
  "ilog2 x = (if 1 \<le> x then bitlen \<lfloor>x\<rfloor> - 1 else - bitlen (\<lceil>1 / x\<rceil> - 1))"

definition round_half_even :: "real \<Rightarrow> int" where
  "round_half_even n =
     (let f = \<lfloor>n\<rfloor>; r = n - of_int f
      in if r < 1 / 2 then f
         else if 1 / 2 < r then f + 1
         else if even f then f else f + 1)"

definition round_double :: "real \<Rightarrow> real" where
  "round_double x =
     (if x = 0 then 0
      else
        let e = max (ilog2 \<bar>x\<bar>) (- 1022);
            ulp = 2 powi (e - 52)
        in sgn x * of_int (round_half_even (\<bar>x\<bar> / ulp)) * ulp)"

text \<open>
  \<^verbatim>\<open>a / b\<close> on two Python integers, as CPython computes it: the quotient correctly
  rounded to a double, \<^verbatim>\<open>ZeroDivisionError\<close> for a zero divisor, and \<^verbatim>\<open>OverflowError\<close>
  ("integer division result too large for a float") when the rounded quotient is beyond
  the largest double. \<open>float_mul\<close> is \<^verbatim>\<open>x * y\<close> on two doubles (the integer \<^verbatim>\<open>100\<close> is
  converted exactly): the rounded product, an infinity on overflow, and no exception.
\<close>

definition truediv_double :: "int \<Rightarrow> int \<Rightarrow> py_error + real" where
  "truediv_double a b =
     (if b = 0 then Inl ZeroDivisionError
      else
        let q = round_double (real_of_int a / real_of_int b)
        in if 2 ^ 1024 \<le> \<bar>q\<bar> then Inl OverflowError else Inr q)"

definition float_mul :: "real \<Rightarrow> real \<Rightarrow> py_float" where
  "float_mul x y =
     (let p = round_double (x * y)
      in if 2 ^ 1024 \<le> p then PosInf
         else if p \<le> - (2 ^ 1024) then NegInf
         else Finite p)"

text \<open>
  The property \<^verbatim>\<open>percent_remaining\<close> of \<^verbatim>\<open>PrizeTier\<close> once more, statement by statement,
  with the division and the multiplication of doubles.
\<close>

definition percent_remaining_double :: "PrizeTier \<Rightarrow> py_error + py_float" where
  "percent_remaining_double t =
     (if total t = 0 then Inr (Finite 0)
      else bind_err (truediv_double (remaining t) (total t)) (\<lambda>q. Inr (float_mul q 100)))"

section \<open>Properties\<close>

subsection \<open>The built-ins and the accessors always return\<close>

text \<open>
  In exact arithmetic no accessor of the engine raises: each one is equal to \<open>Inr\<close> of a
  value, for every tier and every game. The guards of the code (\<^verbatim>\<open>total == 0\<close>, \<^verbatim>\<open>total > 0\<close>,
  \<^verbatim>\<open>if not self.prize_tiers\<close>) are what keeps the division and \<^verbatim>\<open>max\<close>/\<^verbatim>\<open>min\<close> away
  from their failing inputs.
\<close>

lemma bind_err_Inr [simp]: "bind_err (Inr x) f = f x"
  by (simp add: bind_err_def)

lemma bind_err_Inl [simp]: "bind_err (Inl e) f = Inl e"
  by (simp add: bind_err_def)

lemma truediv_nonzero: "b \<noteq> 0 \<Longrightarrow> truediv a b = Inr (real_of_int a / real_of_int b)"
  by (simp add: truediv_def)

lemma percent_remaining_returns:
  "percent_remaining t =
     Inr (if total t = 0 then 0 else real_of_int (remaining t) / real_of_int (total t) * 100)"
  by (simp add: percent_remaining_def truediv_nonzero)

text \<open>
  The loop of \<^verbatim>\<open>max\<close> returns the first item with the greatest key: the items before it
  have strictly smaller keys, the items after it keys that are not greater. Dually for
  \<^verbatim>\<open>min\<close>.
\<close>

lemma max_loop_split:
  "\<exists>pre post. m # xs = pre @ max_loop key m xs # post
      \<and> (\<forall>x \<in> set pre. key x < key (max_loop key m xs))
      \<and> (\<forall>x \<in> set post. key x \<le> key (max_loop key m xs))"
proof (induction xs arbitrary: m)
  case Nil
  have "[m] = [] @ max_loop key m [] # []" by simp
  then show ?case by fastforce
next
  case (Cons x xs)
  show ?case
  proof (cases "key x > key m")
    case True
    define r where "r = max_loop key x xs"
    from Cons.IH [of x] obtain pre post where
      s: "x # xs = pre @ r # post"
      and lt: "\<forall>y \<in> set pre. key y < key r"
      and le: "\<forall>y \<in> set post. key y \<le> key r"
      unfolding r_def by blast
    have "x \<in> set (pre @ r # post)"
      using s by (metis list.set_intros(1))
    then have "key x \<le> key r"
      using lt le by auto
    with True have mr: "key m < key r" by simp
    have r: "max_loop key m (x # xs) = r"
      using True by (simp add: r_def)
    have "m # x # xs = (m # pre) @ r # post"
      using s by simp
    moreover have "\<forall>y \<in> set (m # pre). key y < key r"
      using lt mr by simp
    ultimately show ?thesis
      unfolding r using le by blast
  next
    case False
    define r where "r = max_loop key m xs"
    from Cons.IH [of m] obtain pre post where
      s: "m # xs = pre @ r # post"
      and lt: "\<forall>y \<in> set pre. key y < key r"
      and le: "\<forall>y \<in> set post. key y \<le> key r"
      unfolding r_def by blast
    have r: "max_loop key m (x # xs) = r"
      using False by (simp add: r_def)
    show ?thesis
    proof (cases pre)
      case Nil
      with s have mr: "m = r" and xs: "xs = post" by simp_all
      have "m # x # xs = [] @ r # (x # post)"
        using mr xs by simp
      moreover have "\<forall>y \<in> set (x # post). key y \<le> key r"
        using le False mr by auto
      ultimately show ?thesis
        unfolding r by fastforce
    next
      case (Cons p pre')
      with s have m: "p = m" and xs: "xs = pre' @ r # post" by simp_all
      from lt Cons m have "key m < key r" by simp
      with False have xr: "key x < key r" by simp
      have "m # x # xs = (m # x # pre') @ r # post"
        using xs by simp
      moreover have "\<forall>y \<in> set (m # x # pre'). key y < key r"
        using lt Cons m xr by simp
      ultimately show ?thesis
        unfolding r using le by blast
    qed
  qed
qed

lemma min_loop_split:
  "\<exists>pre post. m # xs = pre @ min_loop key m xs # post
      \<and> (\<forall>x \<in> set pre. key (min_loop key m xs) < key x)
      \<and> (\<forall>x \<in> set post. key (min_loop key m xs) \<le> key x)"
proof (induction xs arbitrary: m)
  case Nil
  have "[m] = [] @ min_loop key m [] # []" by simp
  then show ?case by fastforce
next
  case (Cons x xs)
  show ?case
  proof (cases "key x < key m")
    case True
    define r where "r = min_loop key x xs"
    from Cons.IH [of x] obtain pre post where
      s: "x # xs = pre @ r # post"
      and lt: "\<forall>y \<in> set pre. key r < key y"
      and le: "\<forall>y \<in> set post. key r \<le> key y"
      unfolding r_def by blast
    have "x \<in> set (pre @ r # post)"
      using s by (metis list.set_intros(1))
    then have "key r \<le> key x"
      using lt le by auto
    with True have mr: "key r < key m" by simp
    have r: "min_loop key m (x # xs) = r"
      using True by (simp add: r_def)
    have "m # x # xs = (m # pre) @ r # post"
      using s by simp
    moreover have "\<forall>y \<in> set (m # pre). key r < key y"
      using lt mr by simp
    ultimately show ?thesis
      unfolding r using le by blast
  next
    case False
    define r where "r = min_loop key m xs"
    from Cons.IH [of m] obtain pre post where
      s: "m # xs = pre @ r # post"
      and lt: "\<forall>y \<in> set pre. key r < key y"
      and le: "\<forall>y \<in> set post. key r \<le> key y"
      unfolding r_def by blast
    have r: "min_loop key m (x # xs) = r"
      using False by (simp add: r_def)
    show ?thesis
    proof (cases pre)
      case Nil
      with s have mr: "m = r" and xs: "xs = post" by simp_all
      have "m # x # xs = [] @ r # (x # post)"
        using mr xs by simp
      moreover have "\<forall>y \<in> set (x # post). key r \<le> key y"
        using le False mr by auto
      ultimately show ?thesis
        unfolding r by fastforce
    next
      case (Cons p pre')
      with s have m: "p = m" and xs: "xs = pre' @ r # post" by simp_all
      from lt Cons m have "key r < key m" by simp
      with False have xr: "key r < key x" by simp
      have "m # x # xs = (m # x # pre') @ r # post"
        using xs by simp
      moreover have "\<forall>y \<in> set (m # x # pre'). key r < key y"
        using lt Cons m xr by simp
      ultimately show ?thesis
        unfolding r using le by blast
    qed
  qed
qed

lemma get_top_prize_returns:
  "get_top_prize g =
     Inr (case prize_tiers g of [] \<Rightarrow> None | t # ts \<Rightarrow> Some (max_loop value t ts))"
  by (simp add: get_top_prize_def py_max_def split: list.splits)

lemma get_bottom_prize_returns:
  "get_bottom_prize g =
     Inr (case prize_tiers g of [] \<Rightarrow> None | t # ts \<Rightarrow> Some (min_loop value t ts))"
  by (simp add: get_bottom_prize_def py_min_def split: list.splits)

lemma calculate_million_health_returns:
  "calculate_million_health g =
     (let ts = get_million_plus_tiers g;
          t = sum_list (map total ts);
          r = sum_list (map remaining ts)
      in if ts = [] then Inr (0, 0, 0)
         else Inr (r, t, if 0 < t then real_of_int r / real_of_int t * 100 else 0))"
  by (simp add: calculate_million_health_def Let_def truediv_def)

lemma calculate_million_health_total:
  "\<exists>r t p. calculate_million_health g = Inr (r, t, p)"
  by (simp add: calculate_million_health_returns Let_def)

lemma calculate_differential_returns:
  "calculate_differential g =
     Inr (case prize_tiers g of
            [] \<Rightarrow> 0
          | t # ts \<Rightarrow>
              (let top = max_loop value t ts; bottom = min_loop value t ts
               in (if total top = 0 then 0
                   else real_of_int (remaining top) / real_of_int (total top) * 100)
                - (if total bottom = 0 then 0
                   else real_of_int (remaining bottom) / real_of_int (total bottom) * 100)))"
  by (simp add: calculate_differential_def get_top_prize_returns get_bottom_prize_returns
        percent_remaining_returns Let_def split: list.splits)

lemma calculate_differential_total: "\<exists>d. calculate_differential g = Inr d"
  by (simp add: calculate_differential_returns)

lemma calculate_bottom_depletion_returns:
  "calculate_bottom_depletion g =
     Inr (case prize_tiers g of
            [] \<Rightarrow> 0
          | t # ts \<Rightarrow>
              (let bottom = min_loop value t ts
               in if total bottom = 0 then 0
                  else real_of_int (remaining bottom) / real_of_int (total bottom) * 100))"
  by (simp add: calculate_bottom_depletion_def get_bottom_prize_returns
        percent_remaining_returns Let_def split: list.splits)

lemma calculate_bottom_depletion_total: "\<exists>b. calculate_bottom_depletion g = Inr b"
  by (simp add: calculate_bottom_depletion_returns)

lemma calculate_loss_minimization_score_returns:
  "calculate_loss_minimization_score g =
     Inr (group_pct (get_break_even_tiers g) * 0.50
        + group_pct (get_small_win_tiers g) * 0.30
        + group_pct (get_medium_win_tiers g) * 0.20)"
  by (simp add: calculate_loss_minimization_score_def group_pct_def Let_def truediv_def)

lemma calculate_loss_minimization_score_total:
  "\<exists>s. calculate_loss_minimization_score g = Inr s"
  by (simp add: calculate_loss_minimization_score_returns)

lemma group_pct_nonneg_totals:
  assumes "\<forall>t \<in> set ts. 0 \<le> total t"
  shows "group_pct ts = spec_group_percent ts"
proof -
  have "0 \<le> sum_list (map total ts)"
    using assms by (intro sum_list_nonneg) auto
  then show ?thesis
    by (auto simp: group_pct_def spec_group_percent_def)
qed

lemma empty_tiers_groups:
  assumes "prize_tiers g = []"
  shows "get_million_plus_tiers g = []" "get_break_even_tiers g = []"
    "get_small_win_tiers g = []" "get_medium_win_tiers g = []"
  using assms
  by (simp_all add: get_million_plus_tiers_def get_break_even_tiers_def
        get_small_win_tiers_def get_medium_win_tiers_def)

lemma calculate_composite_score_total: "\<exists>s. calculate_composite_score elapsed g = Inr s"
proof -
  obtain r t p where "calculate_million_health g = Inr (r, t, p)"
    using calculate_million_health_total by blast
  moreover obtain lm where "calculate_loss_minimization_score g = Inr lm"
    using calculate_loss_minimization_score_total by blast
  moreover obtain d where "calculate_differential g = Inr d"
    using calculate_differential_total by blast
  ultimately show ?thesis
    by (simp add: calculate_composite_score_def Let_def)
qed

lemma categorize_game_total: "\<exists>c. categorize_game g = Inr c"
proof -
  obtain r t p where "calculate_million_health g = Inr (r, t, p)"
    using calculate_million_health_total by blast
  moreover obtain b where "calculate_bottom_depletion g = Inr b"
    using calculate_bottom_depletion_total by blast
  moreover obtain d where "calculate_differential g = Inr d"
    using calculate_differential_total by blast
  ultimately show ?thesis
    by (simp add: categorize_game_def)
qed

subsection \<open>Sorting with \<^verbatim>\<open>reverse=True\<close> and the ranking step\<close>

lemma py_sort_reverse_mset: "mset (py_sort key True xs) = mset xs"
  by (simp add: py_sort_def)

lemma py_sort_reverse_sorted: "sorted_wrt (\<lambda>a b. key a \<ge> key b) (py_sort key True xs)"
proof -
  have "sorted (map key (sort_key key (rev xs)))"
    by (rule sorted_sort_key)
  then have "sorted_wrt (\<lambda>a b. key a \<le> key b) (sort_key key (rev xs))"
    by (simp add: sorted_map)
  then show ?thesis
    by (simp add: py_sort_def sorted_wrt_rev)
qed

lemma py_sort_reverse_stable:
  "filter (\<lambda>y. key y = k) (py_sort key True xs) = filter (\<lambda>y. key y = k) xs"
proof -
  have "filter (\<lambda>y. key y = k) (rev (sort_key key (rev xs)))
          = rev (filter (\<lambda>y. key y = k) (sort_key key (rev xs)))"
    by (simp add: rev_filter)
  also have "\<dots> = rev (filter (\<lambda>y. key y = k) (rev xs))"
    by (simp only: sort_key_stable)
  also have "\<dots> = filter (\<lambda>y. key y = k) xs"
    by (simp add: rev_filter)
  finally show ?thesis
    by (simp add: py_sort_def)
qed

lemma py_sort_reverse_idem: "py_sort key True (py_sort key True xs) = py_sort key True xs"
proof -
  have "sorted (map key (sort_key key (rev xs)))"
    by (rule sorted_sort_key)
  then have "sort_key key (sort_key key (rev xs)) = sort_key key (rev xs)"
    by (rule sort_key_id_if_sorted)
  then show ?thesis
    by (simp add: py_sort_def)
qed

lemma with_category_subseq:
  "subseq (with_category cat xs) (map (\<lambda>(g, s, c). (g, s)) xs)"
  unfolding with_category_def by (intro subseq_map subseq_filter_left)

lemma with_category_sorted:
  assumes "sorted_wrt (\<lambda>a b. fst (snd a) \<ge> fst (snd b)) xs"
  shows "sorted_wrt (\<lambda>a b. snd a \<ge> snd b) (with_category cat xs)"
proof -
  have "sorted_wrt (\<lambda>a b. fst (snd a) \<ge> fst (snd b)) (filter (\<lambda>(g, s, c). c = cat) xs)"
    using assms by (rule sorted_wrt_filter)
  then show ?thesis
    unfolding with_category_def by (simp add: sorted_wrt_map case_prod_unfold)
qed

lemma score_games_returns:
  "\<exists>scored. score_games elapsed gs = Inr scored \<and> map fst scored = gs
      \<and> (\<forall>(g, s, c) \<in> set scored.
            calculate_composite_score elapsed g = Inr s \<and> categorize_game g = Inr c)"
proof (induction gs)
  case Nil
  show ?case by simp
next
  case (Cons g gs)
  then obtain rest where rest: "score_games elapsed gs = Inr rest" "map fst rest = gs"
      "\<forall>(g, s, c) \<in> set rest.
          calculate_composite_score elapsed g = Inr s \<and> categorize_game g = Inr c"
    by blast
  obtain s where s: "calculate_composite_score elapsed g = Inr s"
    using calculate_composite_score_total by blast
  obtain c where c: "categorize_game g = Inr c"
    using categorize_game_total by blast
  have "score_games elapsed (g # gs) = Inr ((g, s, c) # rest)"
    by (simp add: s c rest(1))
  with rest s c show ?case by simp
qed

lemma score_games_of_scored:
  assumes "\<forall>(g, s, c) \<in> set xs.
             calculate_composite_score elapsed g = Inr s \<and> categorize_game g = Inr c"
  shows "score_games elapsed (map fst xs) = Inr xs"
  using assms by (induction xs) auto

subsection \<open>Rounding to a double\<close>

text \<open>
  The exponent is the right one, rounding never crosses a number of the grid it rounds to,
  and the rounded value reaches \<open>2 ^ 1024\<close> exactly from \<open>2 ^ 1024 - 2 ^ 970\<close> on, the
  midpoint between the largest double and \<open>2 ^ 1024\<close>.
\<close>

lemma ilog2_bounds:
  assumes "0 < x"
  shows "2 powi (ilog2 x) \<le> x" and "x < 2 powi (ilog2 x + 1)"
proof -
  have "2 powi (ilog2 x) \<le> x \<and> x < 2 powi (ilog2 x + 1)"
  proof (cases "1 \<le> x")
    case True
    define N where "N = \<lfloor>x\<rfloor>"
    have N: "0 < N" using True by (simp add: N_def)
    then have b1: "1 \<le> bitlen N" by (simp add: bitlen_alt_def)
    from bitlen_bounds [OF N] have lo: "2 ^ nat (bitlen N - 1) \<le> N" and hi: "N < 2 ^ nat (bitlen N)"
      by simp_all
    have "(2::real) powi (bitlen N - 1) = 2 ^ nat (bitlen N - 1)"
      using b1 by (simp add: power_int_nonneg_exp)
    also have "\<dots> = of_int (2 ^ nat (bitlen N - 1))" by simp
    also have "\<dots> \<le> of_int N" using lo by (simp only: of_int_le_iff)
    also have "\<dots> \<le> x" by (simp add: N_def)
    finally have A: "(2::real) powi (bitlen N - 1) \<le> x" .
    have "N + 1 \<le> 2 ^ nat (bitlen N)" using hi by simp
    then have "of_int (N + 1) \<le> (of_int (2 ^ nat (bitlen N)) :: real)"
      by (simp only: of_int_le_iff)
    then have "of_int N + 1 \<le> (2 :: real) ^ nat (bitlen N)" by simp
    moreover have "x < of_int N + 1" by (simp add: N_def)
    ultimately have "x < 2 ^ nat (bitlen N)" by linarith
    also have "(2::real) ^ nat (bitlen N) = 2 powi (bitlen N - 1 + 1)"
      using b1 by (simp add: power_int_nonneg_exp)
    finally have B: "x < 2 powi (bitlen N - 1 + 1)" .
    from A B True show ?thesis by (simp add: ilog2_def N_def)
  next
    case False
    define M where "M = \<lceil>1 / x\<rceil>"
    define j where "j = bitlen (M - 1)"
    from False assms have y: "1 < 1 / x" by simp
    then have M: "0 < M - 1" by (simp add: M_def less_ceiling_iff)
    then have j1: "1 \<le> j" by (simp add: j_def bitlen_alt_def)
    from bitlen_bounds [OF M] have lo: "2 ^ nat (j - 1) \<le> M - 1" and hi: "M - 1 < 2 ^ nat j"
      by (simp_all add: j_def)
    have il: "ilog2 x = - j" using False by (simp add: ilog2_def M_def j_def)
    have "M \<le> 2 ^ nat j" using hi by simp
    then have "of_int M \<le> (of_int (2 ^ nat j) :: real)" by (simp only: of_int_le_iff)
    then have "of_int M \<le> (2 :: real) ^ nat j" by simp
    moreover have "1 / x \<le> of_int M" by (simp add: M_def)
    ultimately have "1 / x \<le> 2 ^ nat j" by linarith
    then have "1 / 2 ^ nat j \<le> x" using assms
      by (simp add: field_simps)
    moreover have "(2::real) powi (- j) = 1 / 2 ^ nat j"
      using j1 by (simp add: power_int_minus_divide power_int_nonneg_exp)
    ultimately have A: "2 powi (- j) \<le> x" by simp
    have "of_int (2 ^ nat (j - 1)) \<le> (of_int (M - 1) :: real)" using lo by (simp only: of_int_le_iff)
    then have "(2 :: real) ^ nat (j - 1) \<le> of_int M - 1" by simp
    moreover have "of_int M - 1 < 1 / x" using ceiling_correct [of "1 / x"] by (simp add: M_def)
    ultimately have "2 ^ nat (j - 1) < 1 / x" by linarith
    then have "x < 1 / 2 ^ nat (j - 1)" using assms
      by (simp add: field_simps)
    moreover have "(2::real) powi (- j + 1) = 1 / 2 ^ nat (j - 1)"
    proof -
      have "(2::real) powi (- j + 1) = 2 powi (- (j - 1))" by simp
      also have "\<dots> = 1 / 2 powi (j - 1)" by (rule power_int_minus_divide)
      also have "\<dots> = 1 / 2 ^ nat (j - 1)" using j1 by (simp add: power_int_nonneg_exp)
      finally show ?thesis .
    qed
    ultimately have B: "x < 2 powi (- j + 1)" by simp
    from A B il show ?thesis by simp
  qed
  then show "2 powi (ilog2 x) \<le> x" and "x < 2 powi (ilog2 x + 1)" by simp_all
qed

lemma ilog2_ge:
  assumes "0 < x" and "2 powi k \<le> x"
  shows "k \<le> ilog2 x"
proof (rule ccontr)
  assume "\<not> k \<le> ilog2 x"
  then have "ilog2 x + 1 \<le> k" by simp
  then have "(2::real) powi (ilog2 x + 1) \<le> 2 powi k"
    by (intro power_int_increasing) simp_all
  with ilog2_bounds(2) [OF assms(1)] assms(2) show False by simp
qed

lemma ilog2_le:
  assumes "0 < x" and "x < 2 powi (k + 1)"
  shows "ilog2 x \<le> k"
proof (rule ccontr)
  assume "\<not> ilog2 x \<le> k"
  then have "k + 1 \<le> ilog2 x" by simp
  then have "(2::real) powi (k + 1) \<le> 2 powi (ilog2 x)"
    by (intro power_int_increasing) simp_all
  with ilog2_bounds(1) [OF assms(1)] assms(2) show False by simp
qed

lemma ilog2_eq:
  assumes "0 < x" and "2 powi k \<le> x" and "x < 2 powi (k + 1)"
  shows "ilog2 x = k"
  using ilog2_ge [OF assms(1,2)] ilog2_le [OF assms(1,3)] by simp

lemma round_half_even_floor: "\<lfloor>n\<rfloor> \<le> round_half_even n" "round_half_even n \<le> \<lfloor>n\<rfloor> + 1"
  by (simp_all add: round_half_even_def Let_def)

lemma round_half_even_ge:
  assumes "of_int z \<le> n"
  shows "z \<le> round_half_even n"
proof -
  from assms have "z \<le> \<lfloor>n\<rfloor>" by (simp add: le_floor_iff)
  with round_half_even_floor(1) [of n] show ?thesis by simp
qed

lemma round_half_even_le:
  assumes "n \<le> of_int z"
  shows "round_half_even n \<le> z"
proof (cases "n = of_int z")
  case True
  then show ?thesis by (simp add: round_half_even_def)
next
  case False
  with assms have "n < of_int z" by simp
  then have "\<lfloor>n\<rfloor> < z" by (simp add: floor_less_iff)
  with round_half_even_floor(2) [of n] show ?thesis by simp
qed

lemma round_half_even_of_int [simp]: "round_half_even (of_int z) = z"
  by (simp add: round_half_even_def)

lemma round_half_even_lt_half:
  assumes "n < of_int z + 1 / 2"
  shows "round_half_even n \<le> z"
proof -
  have "n < of_int (z + 1)" using assms by simp
  then have "\<lfloor>n\<rfloor> < z + 1" by (simp only: floor_less_iff)
  then have f: "\<lfloor>n\<rfloor> \<le> z" by simp
  show ?thesis
  proof (cases "\<lfloor>n\<rfloor> = z")
    case True
    with assms have "n - of_int \<lfloor>n\<rfloor> < 1 / 2" by simp
    then show ?thesis using True by (simp add: round_half_even_def Let_def)
  next
    case False
    with f round_half_even_floor(2) [of n] show ?thesis by simp
  qed
qed

lemma round_half_even_gt_half:
  assumes "of_int z - 1 / 2 < n"
  shows "z \<le> round_half_even n"
proof -
  have "of_int (z - 1) \<le> n" using assms by simp
  then have f: "z - 1 \<le> \<lfloor>n\<rfloor>" by (simp only: le_floor_iff)
  show ?thesis
  proof (cases "\<lfloor>n\<rfloor> = z - 1")
    case True
    with assms have "1 / 2 < n - of_int \<lfloor>n\<rfloor>" by simp
    then show ?thesis using True by (simp add: round_half_even_def Let_def)
  next
    case False
    with f round_half_even_floor(1) [of n] show ?thesis by simp
  qed
qed

lemma round_half_even_tie_up:
  assumes "n = of_int z - 1 / 2" and "even z"
  shows "round_half_even n = z"
proof -
  have "\<lfloor>n\<rfloor> = z - 1"
    unfolding assms(1) by (rule floor_unique) simp_all
  moreover have "odd (z - 1)" using assms(2) by simp
  ultimately show ?thesis
    using assms(1) by (simp add: round_half_even_def Let_def)
qed

lemma round_double_pos:
  assumes "0 < x"
  shows "round_double x =
           of_int (round_half_even (x / 2 powi (max (ilog2 x) (- 1022) - 52)))
             * 2 powi (max (ilog2 x) (- 1022) - 52)"
  using assms by (simp add: round_double_def Let_def)

lemma round_double_minus: "round_double (- x) = - round_double x"
  by (simp add: round_double_def Let_def)

lemma round_double_nonneg:
  assumes "0 \<le> x"
  shows "0 \<le> round_double x"
proof (cases "x = 0")
  case True
  then show ?thesis by (simp add: round_double_def)
next
  case False
  with assms have x: "0 < x" by simp
  have "0 \<le> x / 2 powi (max (ilog2 x) (- 1022) - 52)" using x by simp
  then have "(0::int) \<le> round_half_even (x / 2 powi (max (ilog2 x) (- 1022) - 52))"
    by (intro round_half_even_ge) simp
  then show ?thesis
    unfolding round_double_pos [OF x] by simp
qed

lemma round_double_abs: "\<bar>round_double x\<bar> = round_double \<bar>x\<bar>"
proof (cases "0 \<le> x")
  case True
  then show ?thesis using round_double_nonneg [of x] by simp
next
  case False
  then have "0 \<le> - x" by simp
  from round_double_nonneg [OF this] False show ?thesis
    by (simp add: round_double_minus abs_if)
qed

lemma round_double_grid_ge:
  assumes "0 < x" and "of_int z * 2 powi (max (ilog2 x) (- 1022) - 52) \<le> x"
  shows "of_int z * 2 powi (max (ilog2 x) (- 1022) - 52) \<le> round_double x"
proof -
  let ?u = "(2::real) powi (max (ilog2 x) (- 1022) - 52)"
  have u: "0 < ?u" by simp
  from assms(2) have "of_int z \<le> x / ?u"
    using u by (simp add: pos_le_divide_eq)
  then have "z \<le> round_half_even (x / ?u)" by (rule round_half_even_ge)
  then have "of_int z \<le> (of_int (round_half_even (x / ?u)) :: real)" by simp
  then have "of_int z * ?u \<le> of_int (round_half_even (x / ?u)) * ?u"
    using u by (simp only: mult_le_cancel_right_pos)
  then show ?thesis
    unfolding round_double_pos [OF assms(1)] .
qed

lemma round_double_grid_le:
  assumes "0 < x" and "x \<le> of_int z * 2 powi (max (ilog2 x) (- 1022) - 52)"
  shows "round_double x \<le> of_int z * 2 powi (max (ilog2 x) (- 1022) - 52)"
proof -
  let ?u = "(2::real) powi (max (ilog2 x) (- 1022) - 52)"
  have u: "0 < ?u" by simp
  from assms(2) have "x / ?u \<le> of_int z"
    using u by (simp add: pos_divide_le_eq)
  then have "round_half_even (x / ?u) \<le> z" by (rule round_half_even_le)
  then have "(of_int (round_half_even (x / ?u)) :: real) \<le> of_int z" by simp
  then have "of_int (round_half_even (x / ?u)) * ?u \<le> of_int z * ?u"
    using u by (simp only: mult_le_cancel_right_pos)
  then show ?thesis
    unfolding round_double_pos [OF assms(1)] .
qed

lemma pow2_split: "(2::real) powi e = of_int (2 ^ 52) * 2 powi (e - 52)"
proof -
  have "(2::real) powi e = 2 powi (52 + (e - 52))" by simp
  also have "\<dots> = 2 powi 52 * 2 powi (e - 52)" by (rule power_int_add) simp
  finally show ?thesis by simp
qed

lemma round_double_ge_pow2:
  assumes "0 < x" and "- 1022 \<le> E" and "2 powi E \<le> x"
  shows "2 powi E \<le> round_double x"
proof -
  have E: "E \<le> ilog2 x" using assms(1,3) by (rule ilog2_ge)
  then have m: "max (ilog2 x) (- 1022) = ilog2 x" using assms(2) by simp
  have "of_int (2 ^ 52) * 2 powi (max (ilog2 x) (- 1022) - 52) \<le> round_double x"
    using assms(1)
  proof (rule round_double_grid_ge)
    show "of_int (2 ^ 52) * 2 powi (max (ilog2 x) (- 1022) - 52) \<le> x"
      unfolding m pow2_split [symmetric] using assms(1) by (rule ilog2_bounds(1))
  qed
  then have "2 powi (ilog2 x) \<le> round_double x"
    unfolding m pow2_split [symmetric] .
  moreover have "(2::real) powi E \<le> 2 powi (ilog2 x)"
    using E by (intro power_int_increasing) simp_all
  ultimately show ?thesis by simp
qed

lemma round_double_ge_1:
  assumes "1 \<le> x"
  shows "1 \<le> round_double x"
  using round_double_ge_pow2 [of x 0] assms by simp

lemma round_double_ge_100:
  assumes "100 \<le> y"
  shows "100 \<le> round_double y"
proof (cases "128 \<le> y")
  case True
  then have "2 powi 7 \<le> round_double y"
    by (intro round_double_ge_pow2) simp_all
  then show ?thesis by simp
next
  case False
  have y: "0 < y" using assms by simp
  have "ilog2 y = 6"
    using y by (rule ilog2_eq) (use assms False in simp_all)
  then have m: "max (ilog2 y) (- 1022) - 52 = - 46" by simp
  have "of_int (100 * 2 ^ 46) * 2 powi (max (ilog2 y) (- 1022) - 52) \<le> round_double y"
    using y by (rule round_double_grid_ge) (use assms in \<open>simp add: m\<close>)
  then show ?thesis by (simp add: m)
qed

lemma round_double_lt_overflow:
  assumes "0 < x" and "x < 2 ^ 1024 - 2 ^ 970"
  shows "round_double x < 2 ^ 1024"
proof (cases "x < 2 powi 1023")
  case True
  define e where "e = max (ilog2 x) (- 1022)"
  have "ilog2 x \<le> 1022" using assms(1) by (rule ilog2_le) (use True in simp)
  then have e: "e \<le> 1022" by (simp add: e_def)
  have "x < 2 powi (ilog2 x + 1)" using assms(1) by (rule ilog2_bounds(2))
  also have "\<dots> \<le> 2 powi (e + 1)"
    by (intro power_int_increasing) (simp_all add: e_def)
  finally have x: "x \<le> 2 powi (e + 1)" by simp
  have split: "(2::real) powi (e + 1) = of_int (2 ^ 53) * 2 powi (e - 52)"
  proof -
    have "e + 1 = 53 + (e - 52)" by simp
    then have "(2::real) powi (e + 1) = 2 powi (53 + (e - 52))" by (rule arg_cong)
    also have "\<dots> = 2 powi 53 * 2 powi (e - 52)" by (rule power_int_add) simp
    finally show ?thesis by simp
  qed
  have "round_double x \<le> of_int (2 ^ 53) * 2 powi (max (ilog2 x) (- 1022) - 52)"
    using assms(1) by (rule round_double_grid_le) (use x split in \<open>simp add: e_def\<close>)
  then have "round_double x \<le> 2 powi (e + 1)"
    using split by (simp add: e_def)
  also have "\<dots> \<le> 2 powi 1023"
    using e by (intro power_int_increasing) simp_all
  also have "\<dots> < (2::real) ^ 1024" by simp
  finally show ?thesis .
next
  case False
  have "x < 2 powi (1023 + 1)" using assms(2) by simp
  with False assms(1) have "ilog2 x = 1023"
    by (intro ilog2_eq) simp_all
  then have m: "max (ilog2 x) (- 1022) - 52 = 971" by simp
  have "x / 2 ^ 971 < of_int (2 ^ 53 - 1) + 1 / 2"
    using assms(2) by (simp add: field_simps)
  then have "round_half_even (x / 2 ^ 971) \<le> 2 ^ 53 - 1"
    by (rule round_half_even_lt_half)
  then have "(of_int (round_half_even (x / 2 ^ 971)) :: real) \<le> of_int (2 ^ 53 - 1)"
    by (simp only: of_int_le_iff)
  then have "of_int (round_half_even (x / 2 ^ 971)) * (2::real) ^ 971 \<le> of_int (2 ^ 53 - 1) * 2 ^ 971"
    by (simp only: mult_le_cancel_right_pos zero_less_power zero_less_numeral)
  then have "round_double x \<le> of_int (2 ^ 53 - 1) * 2 ^ 971"
    unfolding round_double_pos [OF assms(1)] m by simp
  also have "\<dots> < (2::real) ^ 1024" by simp
  finally show ?thesis .
qed

lemma round_double_ge_overflow:
  assumes "2 ^ 1024 - 2 ^ 970 \<le> x"
  shows "2 ^ 1024 \<le> round_double x"
proof (cases "2 powi 1024 \<le> x")
  case True
  then have "2 powi 1024 \<le> round_double x"
    by (intro round_double_ge_pow2) (simp_all add: less_le_trans [of 0 "2 ^ 1024"])
  then show ?thesis by simp
next
  case False
  have x: "0 < x" using assms by (simp add: less_le_trans [of 0 "2 ^ 1024 - 2 ^ 970"])
  have "2 powi 1023 \<le> x" using assms by simp
  moreover have "x < 2 powi (1023 + 1)" using False by simp
  ultimately have "ilog2 x = 1023"
    using x by (intro ilog2_eq)
  then have m: "max (ilog2 x) (- 1022) - 52 = 971" by simp
  have n: "of_int (2 ^ 53) - 1 / 2 \<le> x / 2 ^ 971"
    using assms by (simp add: field_simps)
  have "2 ^ 53 \<le> round_half_even (x / 2 ^ 971)"
  proof (cases "x / 2 ^ 971 = of_int (2 ^ 53) - 1 / 2")
    case True
    then have "round_half_even (x / 2 ^ 971) = 2 ^ 53"
      by (rule round_half_even_tie_up) simp
    then show ?thesis by simp
  next
    case False
    with n have "of_int (2 ^ 53) - 1 / 2 < x / 2 ^ 971" by simp
    then show ?thesis by (rule round_half_even_gt_half)
  qed
  then have "(of_int (2 ^ 53) :: real) \<le> of_int (round_half_even (x / 2 ^ 971))"
    by (simp only: of_int_le_iff)
  then have "of_int (2 ^ 53) * (2::real) ^ 971 \<le> of_int (round_half_even (x / 2 ^ 971)) * 2 ^ 971"
    by (simp only: mult_le_cancel_right_pos zero_less_power zero_less_numeral)
  then have "of_int (2 ^ 53) * 2 ^ 971 \<le> round_double x"
    unfolding round_double_pos [OF x] m by simp
  then show ?thesis by simp
qed

lemma round_double_overflow_iff:
  "2 ^ 1024 \<le> \<bar>round_double x\<bar> \<longleftrightarrow> 2 ^ 1024 - 2 ^ 970 \<le> \<bar>x\<bar>"
proof (cases "x = 0")
  case True
  then show ?thesis by (simp add: round_double_def)
next
  case False
  then have pos: "0 < \<bar>x\<bar>" by simp
  show ?thesis
    unfolding round_double_abs
    using round_double_lt_overflow [OF pos] round_double_ge_overflow [of "\<bar>x\<bar>"]
    by (metis not_le)
qed

lemma truediv_double_returns:
  assumes "b \<noteq> 0"
  shows "truediv_double a b =
           (if 2 ^ 1024 - 2 ^ 970 \<le> \<bar>real_of_int a / real_of_int b\<bar> then Inl OverflowError
            else Inr (round_double (real_of_int a / real_of_int b)))"
  using assms round_double_overflow_iff [of "real_of_int a / real_of_int b"]
  by (simp add: truediv_double_def Let_def)

lemma float_mul_100_ge:
  assumes "1 \<le> q"
  shows "float_mul q 100 = PosInf \<or> (\<exists>p. float_mul q 100 = Finite p \<and> 100 \<le> p)"
proof -
  have "100 \<le> q * 100" using assms by simp
  then have "100 \<le> round_double (q * 100)" by (rule round_double_ge_100)
  then show ?thesis
    by (simp add: float_mul_def Let_def)
qed

section \<open>The claims\<close>

subsection \<open>Prize tier\<close>

text \<open>
  C8. \<^verbatim>\<open>percent_remaining\<close> can raise, and its result for \<open>remaining > total\<close> need not
  exceed \<open>100\<close>: with \<open>total = 1\<close> and \<open>remaining = 10 ^ 309\<close> the division raises
  \<^verbatim>\<open>OverflowError\<close>, and with \<open>total = 2 ^ 53\<close> and \<open>remaining = 2 ^ 53 + 1\<close> the quotient
  rounds to \<open>1.0\<close> and the result is exactly \<open>100\<close>.
\<close>

theorem percent_remaining_overflows_and_rounds:
  "percent_remaining_double \<lparr> value = 5, total = 1, remaining = 10 ^ 309 \<rparr> = Inl OverflowError
   \<and> percent_remaining_double \<lparr> value = 5, total = 2 ^ 53, remaining = 2 ^ 53 + 1 \<rparr>
       = Inr (Finite 100)"
proof
  show "percent_remaining_double \<lparr> value = 5, total = 1, remaining = 10 ^ 309 \<rparr>
          = Inl OverflowError"
    by (simp add: percent_remaining_double_def truediv_double_returns)
  have q: "round_double (real_of_int (2 ^ 53 + 1) / real_of_int (2 ^ 53)) = 1"
    by (simp add: round_double_def ilog2_def round_half_even_def compute_bitlen)
  have p: "round_double (1 * 100) = 100"
    by (simp add: round_double_def ilog2_def round_half_even_def compute_bitlen)
  have "truediv_double (2 ^ 53 + 1) (2 ^ 53) = Inr 1"
    unfolding truediv_double_def q by simp
  moreover have "float_mul 1 100 = Finite 100"
    unfolding float_mul_def p by simp
  ultimately show "percent_remaining_double \<lparr> value = 5, total = 2 ^ 53, remaining = 2 ^ 53 + 1 \<rparr>
       = Inr (Finite 100)"
    by (simp add: percent_remaining_double_def)
qed

text \<open>
  C8, as amended. \<^verbatim>\<open>percent_remaining\<close> returns \<open>0\<close> when \<open>total = 0\<close> and never raises
  \<^verbatim>\<open>ZeroDivisionError\<close>. When \<open>total \<noteq> 0\<close> it raises \<^verbatim>\<open>OverflowError\<close> exactly when the
  magnitude of \<open>remaining / total\<close> is at least \<open>2 ^ 1024 - 2 ^ 970\<close>, where the quotient
  rounds beyond the largest double, and otherwise it returns the double product of the
  correctly rounded quotient and \<open>100\<close>. When \<open>remaining > total > 0\<close> and the division does
  not overflow, the result is infinite or at least \<open>100\<close>.
\<close>

theorem percent_remaining_double_behaviour:
  "(total t = 0 \<longrightarrow> percent_remaining_double t = Inr (Finite 0))
   \<and> (total t \<noteq> 0 \<longrightarrow>
        percent_remaining_double t =
          (if 2 ^ 1024 - 2 ^ 970 \<le> \<bar>real_of_int (remaining t) / real_of_int (total t)\<bar>
           then Inl OverflowError
           else Inr (float_mul
                       (round_double (real_of_int (remaining t) / real_of_int (total t))) 100)))
   \<and> percent_remaining_double t \<notin> {Inl ZeroDivisionError, Inl ValueError}
   \<and> (0 < total t \<and> total t < remaining t
        \<and> real_of_int (remaining t) / real_of_int (total t) < 2 ^ 1024 - 2 ^ 970 \<longrightarrow>
        percent_remaining_double t = Inr PosInf
        \<or> (\<exists>p. percent_remaining_double t = Inr (Finite p) \<and> 100 \<le> p))"
proof (intro conjI impI)
  assume "total t = 0"
  then show "percent_remaining_double t = Inr (Finite 0)"
    by (simp add: percent_remaining_double_def)
next
  assume "total t \<noteq> 0"
  then show "percent_remaining_double t =
          (if 2 ^ 1024 - 2 ^ 970 \<le> \<bar>real_of_int (remaining t) / real_of_int (total t)\<bar>
           then Inl OverflowError
           else Inr (float_mul
                       (round_double (real_of_int (remaining t) / real_of_int (total t))) 100))"
    by (simp add: percent_remaining_double_def truediv_double_returns)
next
  show "percent_remaining_double t \<notin> {Inl ZeroDivisionError, Inl ValueError}"
    by (cases "total t = 0") (simp_all add: percent_remaining_double_def truediv_double_returns)
next
  assume a: "0 < total t \<and> total t < remaining t
        \<and> real_of_int (remaining t) / real_of_int (total t) < 2 ^ 1024 - 2 ^ 970"
  define x where "x = real_of_int (remaining t) / real_of_int (total t)"
  from a have x1: "1 \<le> x" by (simp add: x_def pos_le_divide_eq)
  then have ax: "\<bar>x\<bar> = x" by simp
  from a have nz: "total t \<noteq> 0" by simp
  have ret: "percent_remaining_double t = Inr (float_mul (round_double x) 100)"
    using a nz ax by (simp add: percent_remaining_double_def truediv_double_returns x_def)
  have "1 \<le> round_double x" using x1 by (rule round_double_ge_1)
  from float_mul_100_ge [OF this] show "percent_remaining_double t = Inr PosInf
        \<or> (\<exists>p. percent_remaining_double t = Inr (Finite p) \<and> 100 \<le> p)"
    unfolding ret by simp
qed

theorem percent_remaining_double_behaviour_witness:
  "percent_remaining_double (mk_tier 5 0 3) = Inr (Finite 0)
   \<and> percent_remaining_double (mk_tier 5 4 6) = Inr (Finite 150)
   \<and> percent_remaining_double (mk_tier 5 4 6) \<noteq> Inl ZeroDivisionError
   \<and> (percent_remaining_double (mk_tier 5 4 6) = Inr PosInf
        \<or> (\<exists>p. percent_remaining_double (mk_tier 5 4 6) = Inr (Finite p) \<and> 100 \<le> p))"
proof -
  have q: "round_double (3 / 2) = 3 / 2"
    by (simp add: round_double_def ilog2_def round_half_even_def compute_bitlen)
  have p: "round_double (3 / 2 * 100) = 150"
    by (simp add: round_double_def ilog2_def round_half_even_def compute_bitlen)
  have m: "float_mul (3 / 2) 100 = Finite 150"
    unfolding float_mul_def p by simp
  from percent_remaining_double_behaviour [of "mk_tier 5 0 3"]
  have zero: "percent_remaining_double (mk_tier 5 0 3) = Inr (Finite 0)"
    by (simp add: mk_tier_def)
  from percent_remaining_double_behaviour [of "mk_tier 5 4 6"]
  have "percent_remaining_double (mk_tier 5 4 6) = Inr (float_mul (round_double (3 / 2)) 100)"
    by (simp add: mk_tier_def)
  then have r: "percent_remaining_double (mk_tier 5 4 6) = Inr (Finite 150)"
    unfolding q m .
  from zero r show ?thesis
    by simp
qed

text \<open>
  C5. The three tier ranges are not disjoint for every ticket price: at a ticket price of
  \<open>50\<close> the break-even range is \<open>100\<close> to \<open>500\<close>, and a tier of value \<open>500\<close> is a break-even
  tier and a small-win tier at once.
\<close>

theorem break_even_overlaps_small_win:
  "is_break_even_tier \<lparr> value = 500, total = 100, remaining = 40 \<rparr> 50
   \<and> is_small_win_tier \<lparr> value = 500, total = 100, remaining = 40 \<rparr>"
  by (simp add: is_break_even_tier_def is_small_win_tier_def)

text \<open>
  C5, as amended. The small-win and medium-win ranges never meet, and no tier satisfies
  two of the three predicates exactly when the ticket price is below \<open>50\<close> or above
  \<open>5000\<close>.
\<close>

theorem tier_ranges_disjoint_iff:
  "(\<forall>t. \<not> (is_break_even_tier t p \<and> is_small_win_tier t)
       \<and> \<not> (is_break_even_tier t p \<and> is_medium_win_tier t)
       \<and> \<not> (is_small_win_tier t \<and> is_medium_win_tier t))
   \<longleftrightarrow> (p < 50 \<or> 5000 < p)"
proof
  assume disj: "\<forall>t. \<not> (is_break_even_tier t p \<and> is_small_win_tier t)
       \<and> \<not> (is_break_even_tier t p \<and> is_medium_win_tier t)
       \<and> \<not> (is_small_win_tier t \<and> is_medium_win_tier t)"
  show "p < 50 \<or> 5000 < p"
  proof (rule ccontr)
    assume "\<not> (p < 50 \<or> 5000 < p)"
    then have p: "50 \<le> p" "p \<le> 5000" by simp_all
    show False
    proof (cases "p \<le> 500")
      case True
      with p disj [rule_format, of "\<lparr> value = max (2 * p) 500, total = 1, remaining = 1 \<rparr>"]
      show False
        by (auto simp: is_break_even_tier_def is_small_win_tier_def max_def split: if_splits)
    next
      case False
      with p disj [rule_format, of "\<lparr> value = max (2 * p) 2000, total = 1, remaining = 1 \<rparr>"]
      show False
        by (auto simp: is_break_even_tier_def is_medium_win_tier_def max_def split: if_splits)
    qed
  qed
next
  assume "p < 50 \<or> 5000 < p"
  then show "\<forall>t. \<not> (is_break_even_tier t p \<and> is_small_win_tier t)
       \<and> \<not> (is_break_even_tier t p \<and> is_medium_win_tier t)
       \<and> \<not> (is_small_win_tier t \<and> is_medium_win_tier t)"
    by (auto simp: is_break_even_tier_def is_small_win_tier_def is_medium_win_tier_def)
qed

theorem tier_ranges_disjoint_iff_witness:
  "\<not> (is_break_even_tier (mk_tier 20 100 40) 5 \<and> is_small_win_tier (mk_tier 20 100 40))
   \<and> \<not> (is_break_even_tier (mk_tier 20 100 40) 5 \<and> is_medium_win_tier (mk_tier 20 100 40))
   \<and> \<not> (is_small_win_tier (mk_tier 20 100 40) \<and> is_medium_win_tier (mk_tier 20 100 40))"
  using tier_ranges_disjoint_iff [of 5] by simp

subsection \<open>Game\<close>

text \<open>
  C9. For a game with at least one tier, \<^verbatim>\<open>get_top_prize\<close> returns the first tier of the
  collection whose value is maximal: every tier before it has a strictly smaller value and
  every tier after it a value that is not greater. \<^verbatim>\<open>get_bottom_prize\<close> returns the first
  tier whose value is minimal, in the same sense.
\<close>

theorem top_bottom_prize_first_extreme:
  assumes "prize_tiers g \<noteq> []"
  shows "(\<exists>t pre post. get_top_prize g = Inr (Some t) \<and> prize_tiers g = pre @ t # post
            \<and> (\<forall>x \<in> set pre. value x < value t) \<and> (\<forall>x \<in> set post. value x \<le> value t))
       \<and> (\<exists>b pre post. get_bottom_prize g = Inr (Some b) \<and> prize_tiers g = pre @ b # post
            \<and> (\<forall>x \<in> set pre. value b < value x) \<and> (\<forall>x \<in> set post. value b \<le> value x))"
proof -
  from assms obtain t ts where ts: "prize_tiers g = t # ts"
    by (cases "prize_tiers g") auto
  have top: "get_top_prize g = Inr (Some (max_loop value t ts))"
    by (simp add: get_top_prize_returns ts)
  have bottom: "get_bottom_prize g = Inr (Some (min_loop value t ts))"
    by (simp add: get_bottom_prize_returns ts)
  from max_loop_split [of t ts "value"] top ts
  have "\<exists>t pre post. get_top_prize g = Inr (Some t) \<and> prize_tiers g = pre @ t # post
            \<and> (\<forall>x \<in> set pre. value x < value t) \<and> (\<forall>x \<in> set post. value x \<le> value t)"
    by metis
  moreover
  from min_loop_split [of t ts "value"] bottom ts
  have "\<exists>b pre post. get_bottom_prize g = Inr (Some b) \<and> prize_tiers g = pre @ b # post
            \<and> (\<forall>x \<in> set pre. value b < value x) \<and> (\<forall>x \<in> set post. value b \<le> value x)"
    by metis
  ultimately show ?thesis by blast
qed

theorem top_bottom_prize_first_extreme_witness:
  "prize_tiers game_order_example \<noteq> []
   \<and> get_top_prize game_order_example = Inr (Some (mk_tier 10 2 2))
   \<and> get_bottom_prize game_order_example = Inr (Some (mk_tier 1 3 3))
   \<and> (\<exists>t pre post. get_top_prize game_order_example = Inr (Some t)
          \<and> prize_tiers game_order_example = pre @ t # post)
   \<and> (\<exists>b pre post. get_bottom_prize game_order_example = Inr (Some b)
          \<and> prize_tiers game_order_example = pre @ b # post)"
proof -
  have ne: "prize_tiers game_order_example \<noteq> []"
    by (simp add: game_order_example_def mk_game_def)
  have "get_top_prize game_order_example = Inr (Some (mk_tier 10 2 2))"
    and "get_bottom_prize game_order_example = Inr (Some (mk_tier 1 3 3))"
    by (simp_all add: game_order_example_def mk_game_def mk_tier_def
          get_top_prize_returns get_bottom_prize_returns)
  with ne top_bottom_prize_first_extreme [OF ne] show ?thesis
    by auto
qed

text \<open>
  C4. \<^verbatim>\<open>calculate_differential\<close> never raises. When the game has a top and a bottom
  prize it returns the percent remaining of the top prize minus that of the bottom prize,
  and it returns \<open>0\<close> when either is absent. The value is signed: any game whose tiers are
  \<open>$1\<close> (total 10, remaining 10) and \<open>$1,000,000\<close> (total 5, remaining 1) has the
  differential \<open>-80\<close>.
\<close>

theorem calculate_differential_top_minus_bottom:
  "(\<exists>top bottom. get_top_prize g = Inr top \<and> get_bottom_prize g = Inr bottom \<and>
      (case (top, bottom) of
         (Some t, Some b) \<Rightarrow>
           (\<exists>pt pb. percent_remaining t = Inr pt \<and> percent_remaining b = Inr pb
              \<and> calculate_differential g = Inr (pt - pb))
       | _ \<Rightarrow> calculate_differential g = Inr 0))
   \<and> calculate_differential (g\<lparr>prize_tiers := [mk_tier 1 10 10, mk_tier 1000000 5 1]\<rparr>)
       = Inr (- 80)"
proof
  show "\<exists>top bottom. get_top_prize g = Inr top \<and> get_bottom_prize g = Inr bottom \<and>
      (case (top, bottom) of
         (Some t, Some b) \<Rightarrow>
           (\<exists>pt pb. percent_remaining t = Inr pt \<and> percent_remaining b = Inr pb
              \<and> calculate_differential g = Inr (pt - pb))
       | _ \<Rightarrow> calculate_differential g = Inr 0)"
    by (cases "prize_tiers g")
       (simp_all add: calculate_differential_def get_top_prize_returns
          get_bottom_prize_returns percent_remaining_returns)
  show "calculate_differential (g\<lparr>prize_tiers := [mk_tier 1 10 10, mk_tier 1000000 5 1]\<rparr>)
       = Inr (- 80)"
    by (simp add: calculate_differential_returns mk_tier_def)
qed

text \<open>
  C3. For a game whose tier totals are non-negative (the data model's \<open>total\<close>),
  \<^verbatim>\<open>calculate_loss_minimization_score\<close> returns \<open>be_pct * 0.50 + sw_pct * 0.30 + mw_pct * 0.20\<close>,
  each percent being the summed remaining over the summed total of its tier group times
  \<open>100\<close>, and \<open>0\<close> for an empty group or a zero summed total. With a ticket price of
  \<open>5\<close>, break-even tiers summing to 80/100, small-win tiers to 40/100 and medium-win
  tiers to 10/50, the score is \<open>56\<close>.
\<close>

theorem loss_minimization_score_weighted:
  "((\<forall>t \<in> set (prize_tiers g). 0 \<le> total t) \<longrightarrow>
      calculate_loss_minimization_score g =
        Inr (spec_group_percent (get_break_even_tiers g) * 0.50
           + spec_group_percent (get_small_win_tiers g) * 0.30
           + spec_group_percent (get_medium_win_tiers g) * 0.20))
   \<and> (ticket_price g = 5
        \<and> sum_list (map remaining (get_break_even_tiers g)) = 80
        \<and> sum_list (map total (get_break_even_tiers g)) = 100
        \<and> sum_list (map remaining (get_small_win_tiers g)) = 40
        \<and> sum_list (map total (get_small_win_tiers g)) = 100
        \<and> sum_list (map remaining (get_medium_win_tiers g)) = 10
        \<and> sum_list (map total (get_medium_win_tiers g)) = 50
      \<longrightarrow> calculate_loss_minimization_score g = Inr 56)"
proof (intro conjI impI)
  assume nonneg: "\<forall>t \<in> set (prize_tiers g). 0 \<le> total t"
  have "group_pct (get_break_even_tiers g) = spec_group_percent (get_break_even_tiers g)"
    using nonneg by (intro group_pct_nonneg_totals) (simp add: get_break_even_tiers_def)
  moreover
  have "group_pct (get_small_win_tiers g) = spec_group_percent (get_small_win_tiers g)"
    using nonneg by (intro group_pct_nonneg_totals) (simp add: get_small_win_tiers_def)
  moreover
  have "group_pct (get_medium_win_tiers g) = spec_group_percent (get_medium_win_tiers g)"
    using nonneg by (intro group_pct_nonneg_totals) (simp add: get_medium_win_tiers_def)
  ultimately show "calculate_loss_minimization_score g =
        Inr (spec_group_percent (get_break_even_tiers g) * 0.50
           + spec_group_percent (get_small_win_tiers g) * 0.30
           + spec_group_percent (get_medium_win_tiers g) * 0.20)"
    by (simp add: calculate_loss_minimization_score_returns)
next
  assume ex: "ticket_price g = 5
        \<and> sum_list (map remaining (get_break_even_tiers g)) = 80
        \<and> sum_list (map total (get_break_even_tiers g)) = 100
        \<and> sum_list (map remaining (get_small_win_tiers g)) = 40
        \<and> sum_list (map total (get_small_win_tiers g)) = 100
        \<and> sum_list (map remaining (get_medium_win_tiers g)) = 10
        \<and> sum_list (map total (get_medium_win_tiers g)) = 50"
  then have "get_break_even_tiers g \<noteq> []" "get_small_win_tiers g \<noteq> []"
      "get_medium_win_tiers g \<noteq> []"
    by auto
  with ex have "group_pct (get_break_even_tiers g) = 80"
      "group_pct (get_small_win_tiers g) = 40" "group_pct (get_medium_win_tiers g) = 20"
    by (simp_all add: group_pct_def)
  then show "calculate_loss_minimization_score g = Inr 56"
    by (simp add: calculate_loss_minimization_score_returns)
qed

theorem loss_minimization_score_weighted_witness:
  "ticket_price game_loss_example = 5
   \<and> map total (prize_tiers game_loss_example) = [60, 40, 100, 50, 3]
   \<and> get_break_even_tiers game_loss_example = [mk_tier 10 60 50, mk_tier 50 40 30]
   \<and> get_small_win_tiers game_loss_example = [mk_tier 500 100 40]
   \<and> get_medium_win_tiers game_loss_example = [mk_tier 5000 50 10]
   \<and> calculate_loss_minimization_score game_loss_example =
        Inr (spec_group_percent (get_break_even_tiers game_loss_example) * 0.50
           + spec_group_percent (get_small_win_tiers game_loss_example) * 0.30
           + spec_group_percent (get_medium_win_tiers game_loss_example) * 0.20)
   \<and> calculate_loss_minimization_score game_loss_example = Inr 56"
proof -
  let ?g = "game_loss_example"
  have totals: "map total (prize_tiers ?g) = [60, 40, 100, 50, 3]"
    by (simp add: game_loss_example_def mk_game_def mk_tier_def)
  have "\<forall>n \<in> set (map total (prize_tiers ?g)). 0 \<le> n"
    unfolding totals by simp
  then have nonneg: "\<forall>t \<in> set (prize_tiers ?g). 0 \<le> total t"
    by simp
  have price: "ticket_price ?g = 5"
    by (simp add: game_loss_example_def mk_game_def)
  have be: "get_break_even_tiers ?g = [mk_tier 10 60 50, mk_tier 50 40 30]"
    by (simp add: get_break_even_tiers_def is_break_even_tier_def
          game_loss_example_def mk_game_def mk_tier_def)
  have sw: "get_small_win_tiers ?g = [mk_tier 500 100 40]"
    by (simp add: get_small_win_tiers_def is_small_win_tier_def
          game_loss_example_def mk_game_def mk_tier_def)
  have mw: "get_medium_win_tiers ?g = [mk_tier 5000 50 10]"
    by (simp add: get_medium_win_tiers_def is_medium_win_tier_def
          game_loss_example_def mk_game_def mk_tier_def)
  have sums: "sum_list (map remaining (get_break_even_tiers ?g)) = 80"
      "sum_list (map total (get_break_even_tiers ?g)) = 100"
      "sum_list (map remaining (get_small_win_tiers ?g)) = 40"
      "sum_list (map total (get_small_win_tiers ?g)) = 100"
      "sum_list (map remaining (get_medium_win_tiers ?g)) = 10"
      "sum_list (map total (get_medium_win_tiers ?g)) = 50"
    unfolding be sw mw by (simp_all add: mk_tier_def)
  note inst = loss_minimization_score_weighted [of ?g]
  have formula: "calculate_loss_minimization_score ?g =
        Inr (spec_group_percent (get_break_even_tiers ?g) * 0.50
           + spec_group_percent (get_small_win_tiers ?g) * 0.30
           + spec_group_percent (get_medium_win_tiers ?g) * 0.20)"
    using inst nonneg by blast
  have "calculate_loss_minimization_score ?g = Inr 56"
    using inst price sums by blast
  with totals price be sw mw formula show ?thesis
    by (intro conjI)
qed

text \<open>
  C6. For a game with no tiers no accessor raises: \<^verbatim>\<open>calculate_million_health\<close> returns
  \<open>(0, 0, 0)\<close>; the loss-minimization score, the differential and the bottom depletion
  are \<open>0\<close>; the top and the bottom prize are \<^verbatim>\<open>None\<close>; the category is \<^verbatim>\<open>AVOID\<close>.
\<close>

theorem empty_game_neutral_values:
  assumes "prize_tiers g = []"
  shows "calculate_million_health g = Inr (0, 0, 0)
       \<and> calculate_loss_minimization_score g = Inr 0
       \<and> calculate_differential g = Inr 0
       \<and> calculate_bottom_depletion g = Inr 0
       \<and> get_top_prize g = Inr None
       \<and> get_bottom_prize g = Inr None
       \<and> categorize_game g = Inr ''AVOID''"
proof -
  have mh: "calculate_million_health g = Inr (0, 0, 0)"
    using assms by (simp add: calculate_million_health_def empty_tiers_groups)
  have lm: "calculate_loss_minimization_score g = Inr 0"
    using assms by (simp add: calculate_loss_minimization_score_def empty_tiers_groups)
  have top: "get_top_prize g = Inr None" and bottom: "get_bottom_prize g = Inr None"
    using assms by (simp_all add: get_top_prize_def get_bottom_prize_def)
  have d: "calculate_differential g = Inr 0"
    by (simp add: calculate_differential_def top bottom)
  have bd: "calculate_bottom_depletion g = Inr 0"
    by (simp add: calculate_bottom_depletion_def bottom)
  have "categorize_game g = Inr ''AVOID''"
    by (simp add: categorize_game_def mh d bd)
  with mh lm top bottom d bd show ?thesis by simp
qed

theorem empty_game_neutral_values_witness:
  "prize_tiers game_empty_A = []
   \<and> calculate_million_health game_empty_A = Inr (0, 0, 0)
   \<and> calculate_loss_minimization_score game_empty_A = Inr 0
   \<and> calculate_differential game_empty_A = Inr 0
   \<and> calculate_bottom_depletion game_empty_A = Inr 0
   \<and> get_top_prize game_empty_A = Inr None
   \<and> get_bottom_prize game_empty_A = Inr None
   \<and> categorize_game game_empty_A = Inr ''AVOID''"
proof -
  have empty: "prize_tiers game_empty_A = []"
    by (simp add: game_empty_A_def mk_game_def)
  from empty empty_game_neutral_values [OF empty] show ?thesis
    by (intro conjI) simp_all
qed

subsection \<open>Scorer\<close>

text \<open>
  C1. For every game, the health, the loss-minimization score and the differential are
  returned, and \<^verbatim>\<open>calculate_composite_score\<close> returns
  \<open>million_pct * 0.40 + loss_min * 0.30 + diff_norm * 0.20 + freshness * 0.10\<close>, where
  \<open>million_pct\<close> is the third component of the health, \<open>diff_norm\<close> is
  \<open>(differential + 30) * (100 / 60)\<close> clamped to \<open>[0, 100]\<close>, and \<open>freshness\<close> is the
  step function of the days since launch (100 under 30 days, 75 under 90, 50 under 180,
  25 from 180 on, and 50 when the age is absent).
\<close>

theorem composite_score_formula:
  "\<exists>r t million_pct loss_min diff.
      calculate_million_health g = Inr (r, t, million_pct)
    \<and> calculate_loss_minimization_score g = Inr loss_min
    \<and> calculate_differential g = Inr diff
    \<and> calculate_composite_score elapsed g =
        Inr (million_pct * 0.40 + loss_min * 0.30
             + spec_clamp 0 100 ((diff + 30) * (100 / 60)) * 0.20
             + spec_freshness (days_since_launch elapsed g) * 0.10)"
proof -
  obtain r t p where mh: "calculate_million_health g = Inr (r, t, p)"
    using calculate_million_health_total by blast
  obtain lm where lm: "calculate_loss_minimization_score g = Inr lm"
    using calculate_loss_minimization_score_total by blast
  obtain d where d: "calculate_differential g = Inr d"
    using calculate_differential_total by blast
  have clamp: "max 0 (min 100 x) = spec_clamp 0 100 x" for x :: real
    by (simp add: spec_clamp_def max_def min_def)
  have fresh: "(case days of
                  Some days \<Rightarrow>
                    if days < 30 then 100 else if days < 90 then 75
                    else if days < 180 then 50 else 25
                | None \<Rightarrow> 50) = spec_freshness days" for days
    by (simp add: spec_freshness_def split: option.splits)
  have "calculate_composite_score elapsed g =
        Inr (p * 0.40 + lm * 0.30
             + spec_clamp 0 100 ((d + 30) * (100 / 60)) * 0.20
             + spec_freshness (days_since_launch elapsed g) * 0.10)"
    unfolding calculate_composite_score_def mh lm d
    by (simp only: bind_err_Inr clamp fresh Let_def prod.case)
  with mh lm d show ?thesis by blast
qed

theorem composite_score_formula_witness:
  "days_since_launch iso_only_45_days game_precedence_example = Some 45
   \<and> calculate_million_health game_precedence_example = Inr (165, 220, 75)
   \<and> calculate_loss_minimization_score game_precedence_example = Inr 0
   \<and> calculate_differential game_precedence_example = Inr (- 5)
   \<and> calculate_composite_score iso_only_45_days game_precedence_example = Inr (275 / 6)"
proof -
  let ?g = "game_precedence_example"
  have days: "days_since_launch iso_only_45_days ?g = Some 45"
    by (simp add: days_since_launch_def iso_only_45_days_def
          game_precedence_example_def mk_game_def)
  have mh: "calculate_million_health ?g = Inr (165, 220, 75)"
    by (simp add: calculate_million_health_returns get_million_plus_tiers_def
          is_million_plus_def game_precedence_example_def mk_game_def mk_tier_def)
  have lm: "calculate_loss_minimization_score ?g = Inr 0"
    by (simp add: calculate_loss_minimization_score_returns group_pct_def
          get_break_even_tiers_def get_small_win_tiers_def get_medium_win_tiers_def
          is_break_even_tier_def is_small_win_tier_def is_medium_win_tier_def
          game_precedence_example_def mk_game_def mk_tier_def)
  have d: "calculate_differential ?g = Inr (- 5)"
    by (simp add: calculate_differential_returns game_precedence_example_def
          mk_game_def mk_tier_def)
  from composite_score_formula [of ?g iso_only_45_days]
  have "calculate_composite_score iso_only_45_days ?g =
          Inr (75 * 0.40 + 0 * 0.30 + spec_clamp 0 100 ((- 5 + 30) * (100 / 60)) * 0.20
               + spec_freshness (Some 45) * 0.10)"
    unfolding mh lm d days by auto
  then have "calculate_composite_score iso_only_45_days ?g = Inr (275 / 6)"
    by (simp add: spec_clamp_def spec_freshness_def)
  with days mh lm d show ?thesis
    by (intro conjI)
qed

text \<open>
  C10. A game with no tiers and no start date has the composite score \<open>15\<close>, whatever
  the clock: the zero differential is normalized to \<open>50\<close> and contributes \<open>10\<close>, the
  unknown age has the freshness \<open>50\<close> and contributes \<open>5\<close>.
\<close>

theorem empty_game_composite_score:
  assumes "prize_tiers g = []" and "start_date g = None"
  shows "calculate_composite_score elapsed g = Inr 15"
proof -
  have mh: "calculate_million_health g = Inr (0, 0, 0)"
    using assms(1) by (simp add: calculate_million_health_def empty_tiers_groups)
  have lm: "calculate_loss_minimization_score g = Inr 0"
    using assms(1) by (simp add: calculate_loss_minimization_score_def empty_tiers_groups)
  have d: "calculate_differential g = Inr 0"
    using assms(1) by (simp add: calculate_differential_returns)
  have days: "days_since_launch elapsed g = None"
    using assms(2) by (simp add: days_since_launch_def)
  show ?thesis
    by (simp add: calculate_composite_score_def mh lm d days)
qed

theorem empty_game_composite_score_witness:
  "prize_tiers game_empty_A = []
   \<and> start_date game_empty_A = None
   \<and> calculate_composite_score iso_only_45_days game_empty_A = Inr 15"
proof -
  have empty: "prize_tiers game_empty_A = []" and absent: "start_date game_empty_A = None"
    by (simp_all add: game_empty_A_def mk_game_def)
  from empty absent empty_game_composite_score [OF empty absent, of iso_only_45_days]
  show ?thesis
    by (intro conjI)
qed



subsection \<open>Ranking\<close>

text \<open>
  C7. The ranking step never raises. Its sorted list is a permutation of the scored
  games, in descending order of the composite score; the entries of equal score keep the
  order they have in the input collection (stability); sorting the sorted list again, or
  ranking the sorted games again, gives the same result (idempotence); and each of the
  three sub-collections holds the entries of its category, as a subsequence of the sorted
  list, hence in descending order of score.
\<close>

theorem ranking_sorted_stable_idempotent:
  "\<exists>unsorted ranking.
      score_games elapsed games = Inr unsorted
    \<and> map fst unsorted = games
    \<and> (\<forall>(g, s, c) \<in> set unsorted.
          calculate_composite_score elapsed g = Inr s \<and> categorize_game g = Inr c)
    \<and> rank_games elapsed games = Inr ranking
    \<and> mset (scored_games ranking) = mset unsorted
    \<and> sorted_wrt (\<lambda>a b. fst (snd a) \<ge> fst (snd b)) (scored_games ranking)
    \<and> (\<forall>k. filter (\<lambda>x. fst (snd x) = k) (scored_games ranking)
            = filter (\<lambda>x. fst (snd x) = k) unsorted)
    \<and> py_sort (\<lambda>x. fst (snd x)) True (scored_games ranking) = scored_games ranking
    \<and> rank_games elapsed (map fst (scored_games ranking)) = Inr ranking
    \<and> hot_games ranking = with_category ''HOT'' (scored_games ranking)
    \<and> watch_games ranking = with_category ''WATCH'' (scored_games ranking)
    \<and> avoid_games ranking = with_category ''AVOID'' (scored_games ranking)
    \<and> (\<forall>sub \<in> {hot_games ranking, watch_games ranking, avoid_games ranking}.
          subseq sub (map (\<lambda>(g, s, c). (g, s)) (scored_games ranking))
        \<and> sorted_wrt (\<lambda>a b. snd a \<ge> snd b) sub)"
proof -
  let ?key = "\<lambda>x :: GameData \<times> real \<times> string. fst (snd x)"
  obtain unsorted where u: "score_games elapsed games = Inr unsorted"
      and order: "map fst unsorted = games"
      and scores: "\<forall>(g, s, c) \<in> set unsorted.
          calculate_composite_score elapsed g = Inr s \<and> categorize_game g = Inr c"
    using score_games_returns [of elapsed games] by blast
  define sorted_games where "sorted_games = py_sort ?key True unsorted"
  define ranking where "ranking =
      \<lparr> scored_games = sorted_games,
        hot_games = with_category ''HOT'' sorted_games,
        watch_games = with_category ''WATCH'' sorted_games,
        avoid_games = with_category ''AVOID'' sorted_games \<rparr>"
  have r: "rank_games elapsed games = Inr ranking"
    by (simp add: rank_games_def u ranking_def sorted_games_def Let_def)
  have sg: "scored_games ranking = sorted_games"
    and hot: "hot_games ranking = with_category ''HOT'' sorted_games"
    and watch: "watch_games ranking = with_category ''WATCH'' sorted_games"
    and avoid: "avoid_games ranking = with_category ''AVOID'' sorted_games"
    by (simp_all add: ranking_def)
  have perm: "mset sorted_games = mset unsorted"
    unfolding sorted_games_def by (rule py_sort_reverse_mset)
  have desc: "sorted_wrt (\<lambda>a b. ?key a \<ge> ?key b) sorted_games"
    unfolding sorted_games_def by (rule py_sort_reverse_sorted)
  have stable: "\<forall>k. filter (\<lambda>x. ?key x = k) sorted_games = filter (\<lambda>x. ?key x = k) unsorted"
    unfolding sorted_games_def by (simp add: py_sort_reverse_stable)
  have idem: "py_sort ?key True sorted_games = sorted_games"
    unfolding sorted_games_def by (rule py_sort_reverse_idem)
  have "set sorted_games = set unsorted"
    using perm by (rule mset_eq_setD)
  with scores have "\<forall>(g, s, c) \<in> set sorted_games.
      calculate_composite_score elapsed g = Inr s \<and> categorize_game g = Inr c"
    by simp
  then have "score_games elapsed (map fst sorted_games) = Inr sorted_games"
    by (rule score_games_of_scored)
  then have again: "rank_games elapsed (map fst sorted_games) = Inr ranking"
    by (simp add: rank_games_def idem ranking_def Let_def)
  have subs: "\<forall>sub \<in> {hot_games ranking, watch_games ranking, avoid_games ranking}.
          subseq sub (map (\<lambda>(g, s, c). (g, s)) sorted_games)
        \<and> sorted_wrt (\<lambda>a b. snd a \<ge> snd b) sub"
    unfolding hot watch avoid
    using with_category_subseq with_category_sorted [OF desc] by simp
  show ?thesis
    using u order scores r perm desc stable idem again hot watch avoid subs
    unfolding sg [symmetric] by blast
qed

theorem ranking_sorted_stable_idempotent_witness:
  "rank_games no_format_parses [game_empty_A, game_million_B, game_empty_C]
   = Inr \<lparr> scored_games =
             [(game_million_B, 55, ''WATCH''),
              (game_empty_A, 15, ''AVOID''),
              (game_empty_C, 15, ''AVOID'')],
           hot_games = [],
           watch_games = [(game_million_B, 55)],
           avoid_games = [(game_empty_A, 15), (game_empty_C, 15)] \<rparr>
   \<and> game_empty_A \<noteq> game_empty_C
   \<and> sorted_wrt (\<lambda>a b. snd a \<ge> snd b) [(game_empty_A, 15 :: real), (game_empty_C, 15)]"
proof -
  let ?A = "game_empty_A"
  let ?B = "game_million_B"
  let ?C = "game_empty_C"
  let ?e = "no_format_parses"
  have A: "prize_tiers ?A = []" and C: "prize_tiers ?C = []"
    by (simp_all add: game_empty_A_def game_empty_C_def mk_game_def)
  have days: "days_since_launch ?e g = None" for g
    by (cases "start_date g") (simp_all add: days_since_launch_def no_format_parses_def)
  have sA: "calculate_composite_score ?e ?A = Inr 15"
    by (simp add: calculate_composite_score_def calculate_million_health_returns
          calculate_loss_minimization_score_returns calculate_differential_returns days
          group_pct_def empty_tiers_groups [OF A] A)
  have sC: "calculate_composite_score ?e ?C = Inr 15"
    by (simp add: calculate_composite_score_def calculate_million_health_returns
          calculate_loss_minimization_score_returns calculate_differential_returns days
          group_pct_def empty_tiers_groups [OF C] C)
  have cA: "categorize_game ?A = Inr ''AVOID''"
    by (simp add: categorize_game_def calculate_million_health_returns
          calculate_bottom_depletion_returns calculate_differential_returns
          empty_tiers_groups [OF A] A)
  have cC: "categorize_game ?C = Inr ''AVOID''"
    by (simp add: categorize_game_def calculate_million_health_returns
          calculate_bottom_depletion_returns calculate_differential_returns
          empty_tiers_groups [OF C] C)
  have mB: "calculate_million_health ?B = Inr (1, 1, 100)"
    by (simp add: calculate_million_health_returns get_million_plus_tiers_def
          is_million_plus_def game_million_B_def mk_game_def mk_tier_def)
  have lB: "calculate_loss_minimization_score ?B = Inr 0"
    by (simp add: calculate_loss_minimization_score_returns group_pct_def
          get_break_even_tiers_def get_small_win_tiers_def get_medium_win_tiers_def
          is_break_even_tier_def is_small_win_tier_def is_medium_win_tier_def
          game_million_B_def mk_game_def mk_tier_def)
  have dB: "calculate_differential ?B = Inr 0"
    by (simp add: calculate_differential_returns game_million_B_def mk_game_def mk_tier_def)
  have bB: "calculate_bottom_depletion ?B = Inr 100"
    by (simp add: calculate_bottom_depletion_returns game_million_B_def mk_game_def
          mk_tier_def)
  have sB: "calculate_composite_score ?e ?B = Inr 55"
    by (simp add: calculate_composite_score_def mB lB dB days)
  have cB: "categorize_game ?B = Inr ''WATCH''"
    by (simp add: categorize_game_def mB bB dB)
  have u: "score_games ?e [?A, ?B, ?C]
             = Inr [(?A, 15, ''AVOID''), (?B, 55, ''WATCH''), (?C, 15, ''AVOID'')]"
    by (simp add: sA sB sC cA cB cC)
  have r: "rank_games ?e [?A, ?B, ?C]
      = Inr \<lparr> scored_games = [(?B, 55, ''WATCH''), (?A, 15, ''AVOID''), (?C, 15, ''AVOID'')],
              hot_games = [],
              watch_games = [(?B, 55)],
              avoid_games = [(?A, 15), (?C, 15)] \<rparr>"
    unfolding rank_games_def u by (simp add: py_sort_def with_category_def)
  have ne: "?A \<noteq> ?C"
    by (simp add: game_empty_A_def game_empty_C_def mk_game_def)
  from ranking_sorted_stable_idempotent [of ?e "[?A, ?B, ?C]"]
  have "sorted_wrt (\<lambda>a b. snd a \<ge> snd b) [(?A, 15 :: real), (?C, 15)]"
    unfolding r by auto
  with r ne show ?thesis
    by (intro conjI)
qed

end
